theory Spec2Isabelle
  imports Main "HOL-Library.Char_ord" "HOL-Library.List_Lexorder" "HOL-Library.Sublist"
    "HOL-Library.AList"
begin

section \<open>Strings and dictionaries of the Python source\<close>

text \<open>
  A Python \<open>str\<close> is modelled as the list of its characters (\<open>string\<close>); the order on
  strings is the lexicographic order on character codes, as Python's \<open>sorted\<close> uses it.
  A \<open>dict\<close> is an association list in insertion order with unique keys.
\<close>

datatype exn = ImportError | OtherException | KeyError | AttributeError | NotModelled

text \<open>\<open>s.split(sep)\<close> for a one-character separator: never empty, \<open>''''.split(''.'') = ['''']\<close>.\<close>

fun str_split :: "char \<Rightarrow> string \<Rightarrow> string list" where
  "str_split sep [] = [[]]"
| "str_split sep (c # cs) =
     (if c = sep then [] # str_split sep cs
      else (case str_split sep cs of
              [] \<Rightarrow> [[c]]
            | x # xs \<Rightarrow> (c # x) # xs))"

text \<open>\<open>sep.join(xs)\<close>.\<close>

fun str_join :: "string \<Rightarrow> string list \<Rightarrow> string" where
  "str_join sep [] = []"
| "str_join sep [x] = x"
| "str_join sep (x # y # ys) = x @ sep @ str_join sep (y # ys)"

text \<open>\<open>s.startswith(p)\<close>.\<close>

definition startswith :: "string \<Rightarrow> string \<Rightarrow> bool" where
  "startswith s p = prefix p s"

text \<open>\<open>s.lstrip('.')\<close>.\<close>

definition lstrip_dot :: "string \<Rightarrow> string" where
  "lstrip_dot s = dropWhile (\<lambda>c. c = CHR ''.'') s"

text \<open>\<open>d[k] = v\<close>: an existing key keeps its position, a new key is appended.\<close>

definition dict_set :: "'k \<Rightarrow> 'v \<Rightarrow> ('k \<times> 'v) list \<Rightarrow> ('k \<times> 'v) list" where
  "dict_set k v d = AList.update k v d"

text \<open>\<open>d |= other\<close>.\<close>

definition dict_ior :: "('k \<times> 'v) list \<Rightarrow> ('k \<times> 'v) list \<Rightarrow> ('k \<times> 'v) list" where
  "dict_ior d other = fold (\<lambda>(k, v). dict_set k v) other d"

text \<open>\<open>d[k]\<close> raises \<open>KeyError\<close> on a missing key.\<close>

definition dict_getitem :: "('k \<times> 'v) list \<Rightarrow> 'k \<Rightarrow> exn + 'v" where
  "dict_getitem d k = (case map_of d k of None \<Rightarrow> Inl KeyError | Some v \<Rightarrow> Inr v)"

section \<open>Tree renderer: \<open>_generate_project_tree\<close>\<close>

text \<open>
  \<open>tree_dict\<close> is a dict whose values are dicts of the same kind. The inner loop
  \<^verbatim>\<open>for part in parts: if part not in current: current[part] = {}; current = current[part]\<close>
  walks down the shared structure and adds the missing nodes; \<open>ins\<close> is that walk, returning
  the updated dict.
\<close>

datatype tree = Tree "(string \<times> tree) list"

fun ins :: "string list \<Rightarrow> (string \<times> tree) list \<Rightarrow> (string \<times> tree) list" where
  "ins [] d = d"
| "ins (part # parts) [] = [(part, Tree (ins parts []))]"
| "ins (part # parts) ((k, Tree c) # d) =
     (if k = part then (k, Tree (ins parts c)) # d
      else (k, Tree c) # ins (part # parts) d)"

definition build_tree_dict :: "string list \<Rightarrow> (string \<times> tree) list" where
  "build_tree_dict module_list =
     fold (\<lambda>module_path. ins (str_split CHR ''.'' module_path)) module_list []"

definition indent :: "nat \<Rightarrow> string" where
  "indent level = concat (replicate level ''  '')"

text \<open>
  \<open>process_tree_dict\<close>: the items sorted (keys are unique, so by key), a line per node, the
  lines of the children right after their parent's.
\<close>

fun process_tree_dict :: "(string \<times> tree) list \<Rightarrow> nat \<Rightarrow> string list" where
  "process_tree_dict tree_dict level =
     concat (map (\<lambda>(name, t). case t of Tree children \<Rightarrow>
                    if children \<noteq> []
                    then (indent level @ ''- '' @ name @ ''/'')
                         # process_tree_dict children (level + 1)
                    else [indent level @ ''- '' @ name])
                 (sort_key fst tree_dict))"

definition generate_project_tree :: "string list \<Rightarrow> string" where
  "generate_project_tree module_list =
     str_join [CHR 0x0A] (process_tree_dict (build_tree_dict module_list) 0)"

section \<open>The \<open>get_module_doc\<close> tool\<close>

definition get_module_doc :: "(string \<times> string) list \<Rightarrow> string \<Rightarrow> exn + string" where
  "get_module_doc module_doc_dict module_name =
     (if module_name \<notin> fst ` set module_doc_dict
      then Inr (''Module '' @ module_name @ '' does not exist'')
      else (case dict_getitem module_doc_dict module_name of
              Inl e \<Rightarrow> Inl e
            | Inr doc \<Rightarrow> Inr (take 2000 doc)))"

section \<open>Nodes, segment paths and lines\<close>

text \<open>
  The nodes of a tree dict, each as the list of segments leading to it from the top.
\<close>

fun paths :: "(string \<times> tree) list \<Rightarrow> string list list" where
  "paths [] = []"
| "paths ((k, Tree c) # d) = [k] # map ((#) k) (paths c) @ paths d"

text \<open>A node and the nodes below it.\<close>

definition node_count :: "string \<times> tree \<Rightarrow> nat" where
  "node_count x = (case x of (k, Tree c) \<Rightarrow> Suc (length (paths c)))"

text \<open>
  The distinct segment paths of a collection of dotted names: the non-empty prefixes of each
  name's list of segments, as a set (so shared prefixes count once).
\<close>

definition segment_paths :: "string list \<Rightarrow> string list set" where
  "segment_paths names = (\<Union>n \<in> set names. set (tl (prefixes (str_split CHR ''.'' n))))"

section \<open>Loaded modules as the extractor sees them\<close>

text \<open>
  What \<open>inspect.getmembers\<close> reports of a loaded module: its classes and functions by name,
  each with its \<open>__module__\<close> (the empty string when the attribute is missing) and its
  \<open>__doc__\<close> (\<open>None\<close> or a string); for a class, the functions \<open>inspect.getmembers(obj,
  inspect.isfunction)\<close> lists, inherited ones included.
\<close>

record pyfunc =
  fn_module :: string
  fn_doc :: "string option"

record pyclass =
  cls_module :: string
  cls_doc :: "string option"
  cls_functions :: "(string \<times> pyfunc) list"

record pymodule =
  mod_name :: string
  mod_doc :: "string option"
  mod_classes :: "(string \<times> pyclass) list"
  mod_functions :: "(string \<times> pyfunc) list"

text \<open>
  The values stored in the dicts of the Structural Graph: \<open>None\<close>, strings, the module, class
  and function objects kept under the key \<open>obj\<close>, and nested dicts.
\<close>

datatype pyobj = ObjModule pymodule | ObjClass pyclass | ObjFunc pyfunc

datatype pyval = PNone | PStr string | PObj pyobj | PDict "(string \<times> pyval) list"

definition doc_val :: "string option \<Rightarrow> pyval" where
  "doc_val d = (case d of None \<Rightarrow> PNone | Some s \<Rightarrow> PStr s)"

section \<open>Entity extractor: \<open>_process_module\<close>\<close>

text \<open>\<open>_get_abs_name\<close>: the name prefixed by \<open>f_module_name\<close> and a dot, leading dots stripped.\<close>

definition get_abs_name :: "string \<Rightarrow> string \<Rightarrow> string" where
  "get_abs_name f_module_name obj_name = lstrip_dot (f_module_name @ ''.'' @ obj_name)"

text \<open>
  The inner loop over \<open>inspect.getmembers(obj, inspect.isfunction)\<close>, filling
  \<open>c_dict["method"]\<close>. It has no test on the function's \<open>__module__\<close>.
\<close>

definition class_methods :: "string \<Rightarrow> string \<Rightarrow> pyclass \<Rightarrow> (string \<times> pyval) list" where
  "class_methods f_module_name name obj =
     fold (\<lambda>(method_name, method_obj).
             dict_set (get_abs_name f_module_name (name @ ''.'' @ method_name))
                      (PDict [(''doc'', doc_val (fn_doc method_obj)),
                              (''obj'', PObj (ObjFunc method_obj))]))
          (cls_functions obj) []"

text \<open>
  \<open>_process_module\<close>: \<open>m_dict\<close> starts as \<open>{"obj": module}\<close>; the classes and then the
  functions whose \<open>__module__\<close> starts with the module's name are added; the final test
  \<open>if not m_dict\<close> is kept as the source has it.
\<close>

definition process_module :: "pymodule \<Rightarrow> string \<Rightarrow> (string \<times> pyval) list" where
  "process_module module f_module_name =
     (let m0 = [(''obj'', PObj (ObjModule module))];
          m1 = fold (\<lambda>(name, obj) m_dict.
                       if \<not> startswith (cls_module obj) (mod_name module) then m_dict
                       else dict_set (get_abs_name f_module_name name)
                              (PDict [(''doc'', doc_val (cls_doc obj)),
                                      (''obj'', PObj (ObjClass obj)),
                                      (''method'', PDict (class_methods f_module_name name obj))])
                              m_dict)
                    (mod_classes module) m0;
          m2 = fold (\<lambda>(name, obj) m_dict.
                       if \<not> startswith (fn_module obj) (mod_name module) then m_dict
                       else dict_set (f_module_name @ ''.'' @ name)
                              (PDict [(''doc'', doc_val (fn_doc obj)),
                                      (''obj'', PObj (ObjFunc obj))])
                              m_dict)
                    (mod_functions module) m1
      in if m2 = [] then [] else [(mod_name module, PDict m2)])"

section \<open>Package walker: \<open>_process_package\<close>\<close>

text \<open>
  A unit below a package as \<open>pkgutil\<close> lists it: its dotted name, whether it is a package, the
  result of loading it (the module, or the exception the load raises) and, for a package, the
  units found in its own directory.
\<close>

datatype unit = Unit string bool "exn + pymodule" "unit list"

text \<open>
  The state of the loop in \<open>_process_package\<close>: \<open>m_dict["children"]\<close>, \<open>m_dict["module"]\<close> and
  the set \<open>processed_module\<close> (only membership is used).
\<close>

record pkg_state =
  pkg_children :: "(string \<times> pyval) list"
  pkg_module :: "(string \<times> pyval) list"
  processed_module :: "string list"

text \<open>The end of \<open>_process_package\<close>: nothing when both mappings are empty.\<close>

definition package_result :: "pymodule \<Rightarrow> pkg_state \<Rightarrow> (string \<times> pyval) list" where
  "package_result module st =
     (if pkg_children st = [] \<and> pkg_module st = [] then []
      else [(mod_name module,
             PDict [(''obj'', PObj (ObjModule module)),
                    (''children'', PDict (pkg_children st)),
                    (''module'', PDict (pkg_module st))])])"

definition empty_pkg_state :: pkg_state where
  "empty_pkg_state = \<lparr>pkg_children = [], pkg_module = [], processed_module = []\<rparr>"

text \<open>
  The loop over \<open>pkgutil.walk_packages(module.__path__, module.__name__ + ".")\<close>. The generator
  yields a unit, the loop body runs, and when the generator is resumed it imports a package it
  has just yielded and goes on with the units of that package before the next sibling: an
  \<open>ImportError\<close> there is swallowed, any other exception is raised into the loop.
  In the body a sub-package is loaded with \<open>load_module\<close> outside any \<open>try\<close>, so its exception
  leaves \<open>_process_package\<close>; a plain sub-module is imported inside \<open>try\<close>, and its failure
  only skips it.
\<close>

fun package_loop :: "unit list \<Rightarrow> string list \<Rightarrow> pkg_state \<Rightarrow> exn + pkg_state" where
  "package_loop [] skip_modules st = Inr st"
| "package_loop (Unit modname ispkg load subs # us) skip_modules st =
     (case
        (if list_ex (\<lambda>skip_mod. startswith modname skip_mod) skip_modules then Inr st
         else if ispkg then
           (case load of
              Inl e \<Rightarrow> Inl e
            | Inr m \<Rightarrow>
                (case package_loop subs skip_modules empty_pkg_state of
                   Inl e \<Rightarrow> Inl e
                 | Inr sub_st \<Rightarrow>
                     Inr (st\<lparr>pkg_children := dict_ior (pkg_children st) (package_result m sub_st),
                             processed_module := modname # processed_module st\<rparr>)))
         else
           (case load of
              Inl e \<Rightarrow> Inr st
            | Inr submodule \<Rightarrow>
                if list_ex (\<lambda>pm. startswith modname pm) (processed_module st) then Inr st
                else Inr (st\<lparr>pkg_module := dict_ior (pkg_module st)
                                             (process_module submodule modname)\<rparr>)))
      of
        Inl e \<Rightarrow> Inl e
      | Inr st1 \<Rightarrow>
          (if ispkg then
             (case load of
                Inr m \<Rightarrow>
                  (case package_loop subs skip_modules st1 of
                     Inl e \<Rightarrow> Inl e
                   | Inr st2 \<Rightarrow> package_loop us skip_modules st2)
              | Inl e \<Rightarrow>
                  if e = ImportError then package_loop us skip_modules st1 else Inl e)
           else package_loop us skip_modules st1))"

definition process_package :: "pymodule \<Rightarrow> unit list \<Rightarrow> string list \<Rightarrow> exn + (string \<times> pyval) list" where
  "process_package module subs skip_modules =
     (case package_loop subs skip_modules empty_pkg_state of
        Inl e \<Rightarrow> Inl e
      | Inr st \<Rightarrow> Inr (package_result module st))"

section \<open>Filesystem scanner: \<open>_gen_module_dict\<close>\<close>

text \<open>
  \<open>importlib.import_module(name)\<close> over the units of the project: the unit of that name, loaded
  when it and the packages above it load; \<open>ImportError\<close> when there is no such unit.
\<close>

fun lookup_unit :: "string \<Rightarrow> unit list \<Rightarrow> (exn + unit) option" where
  "lookup_unit name [] = None"
| "lookup_unit name (Unit n ispkg load subs # us) =
     (if n = name then
        Some (case load of Inl e \<Rightarrow> Inl e | Inr m \<Rightarrow> Inr (Unit n ispkg load subs))
      else
        (case (if ispkg then lookup_unit name subs else None) of
           Some r \<Rightarrow> Some (case load of Inl e \<Rightarrow> Inl e | Inr m \<Rightarrow> r)
         | None \<Rightarrow> lookup_unit name us))"

definition import_module :: "unit list \<Rightarrow> string \<Rightarrow> exn + unit" where
  "import_module units name =
     (case lookup_unit name units of None \<Rightarrow> Inl ImportError | Some r \<Rightarrow> r)"

text \<open>A directory as \<open>os.walk\<close> reports it: its file names and its sub-directories.\<close>

datatype dir = Dir "string list" "(string \<times> dir) list"

text \<open>The state of the walk: \<open>self.module_dict\<close> and the set \<open>processed_packages\<close>.\<close>

record walk_state =
  ws_module_dict :: "(string \<times> pyval) list"
  processed_packages :: "string list"

text \<open>
  \<open>os.path.relpath(root, self.project_path).replace(os.sep, ".")\<close> for the directory reached
  by the given path segments; the project root itself gives \<open>"."\<close>.
\<close>

definition rel_name :: "string list \<Rightarrow> string" where
  "rel_name segs = (if segs = [] then ''.'' else str_join ''.'' segs)"

text \<open>\<open>".".join(module_name.split(".")[:-1])\<close>.\<close>

definition parent_name :: "string \<Rightarrow> string" where
  "parent_name module_name = str_join ''.'' (butlast (str_split CHR ''.'' module_name))"

text \<open>
  \<open>os.path.splitext(file)[0]\<close> for a name ending in \<open>.py\<close>: the name without the extension,
  unless only dots precede the last dot.
\<close>

definition splitext_py :: "string \<Rightarrow> string" where
  "splitext_py file =
     (let root = take (length file - 3) file
      in if list_all (\<lambda>c. c = CHR ''.'') root then file else root)"

text \<open>
  \<open>importlib.util.module_from_spec(spec)\<close>: a new module object of that name; it is not
  executed, so it has no members.
\<close>

definition stub_module :: "string \<Rightarrow> pymodule" where
  "stub_module name = \<lparr>mod_name = name, mod_doc = None, mod_classes = [], mod_functions = []\<rparr>"

text \<open>The body of \<open>for file in files\<close>.\<close>

definition file_step :: "string list \<Rightarrow> string \<Rightarrow> walk_state \<Rightarrow> walk_state" where
  "file_step segs file st =
     (if suffix ''.py'' file
         \<and> file \<notin> set [''__init__.py'', ''setup.py'', ''conftest.py'', ''wsgi.py'', ''asgi.py'']
      then
        (if rel_name segs \<in> set (processed_packages st) then st
         else st\<lparr>ws_module_dict :=
                   dict_ior (ws_module_dict st)
                            (process_module (stub_module (splitext_py file)) [])\<rparr>)
      else st)"

text \<open>
  The block under \<open>if "__init__.py" in files\<close>: \<open>None\<close> is the \<open>continue\<close> that skips the rest
  of this directory; an exception is caught and leaves the state as it was.
\<close>

definition package_step :: "unit list \<Rightarrow> string list \<Rightarrow> walk_state \<Rightarrow> walk_state option" where
  "package_step units segs st =
     (let module_name = rel_name segs in
      case import_module units module_name of
        Inl e \<Rightarrow> Some st
      | Inr u \<Rightarrow>
          (case u of Unit n ispkg load subs \<Rightarrow>
             (case load of
                Inl e \<Rightarrow> Some st
              | Inr module \<Rightarrow>
                  if parent_name module_name \<in> set (processed_packages st) then None
                  else
                    (case process_package module subs [''docs'', ''test'', ''tests''] of
                       Inl e \<Rightarrow> Some st
                     | Inr d \<Rightarrow>
                         Some (st\<lparr>ws_module_dict := dict_ior (ws_module_dict st) d,
                                  processed_packages := module_name # processed_packages st\<rparr>)))))"

text \<open>One iteration of the loop over \<open>os.walk\<close>.\<close>

definition visit_dir :: "unit list \<Rightarrow> string list \<Rightarrow> string list \<Rightarrow> walk_state \<Rightarrow> walk_state" where
  "visit_dir units segs files st =
     (case (if ''__init__.py'' \<in> set files then package_step units segs st else Some st) of
        None \<Rightarrow> st
      | Some st1 \<Rightarrow> fold (file_step segs) files st1)"

text \<open>
  \<open>os.walk\<close> top-down: the directory itself, then the sub-directories that the assignment to
  \<open>dirs[:]\<close> keeps.
\<close>

fun gen_walk :: "unit list \<Rightarrow> string list \<Rightarrow> dir \<Rightarrow> walk_state \<Rightarrow> walk_state" where
  "gen_walk units segs (Dir files subdirs) st =
     fold (\<lambda>(d, sub). gen_walk units (segs @ [d]) sub)
          (filter (\<lambda>(d, sub). \<not> startswith d ''.'' \<and> d \<notin> set [''__pycache__'', ''tests'', ''docs''])
                  subdirs)
          (visit_dir units segs files st)"

section \<open>Doc Index flattener: \<open>_generate_module_doc_dict\<close>\<close>

text \<open>Truth value of a stored value, as \<open>if doc := ...\<close> and \<open>doc or ''\<close> test it.\<close>

fun truthy :: "pyval \<Rightarrow> bool" where
  "truthy PNone = False"
| "truthy (PStr s) = (s \<noteq> [])"
| "truthy (PObj obj) = True"
| "truthy (PDict d) = (d \<noteq> [])"

text \<open>
  The text \<open>{doc or ''}\<close> puts into the entry. The \<open>repr\<close> of an object or of a non-empty dict
  is outside the model.
\<close>

fun doc_text :: "pyval \<Rightarrow> exn + string" where
  "doc_text PNone = Inr []"
| "doc_text (PStr s) = Inr s"
| "doc_text (PObj obj) = Inl NotModelled"
| "doc_text (PDict d) = (if d = [] then Inr [] else Inl NotModelled)"

text \<open>\<open>v.get(key, default)\<close> and \<open>v.items()\<close> on a stored value; only a dict has them.\<close>

fun py_get :: "pyval \<Rightarrow> string \<Rightarrow> pyval \<Rightarrow> exn + pyval" where
  "py_get (PDict d) key dflt = Inr (case map_of d key of None \<Rightarrow> dflt | Some v \<Rightarrow> v)"
| "py_get PNone key dflt = Inl AttributeError"
| "py_get (PStr s) key dflt = Inl AttributeError"
| "py_get (PObj obj) key dflt = Inl NotModelled"

fun py_items :: "pyval \<Rightarrow> exn + (string \<times> pyval) list" where
  "py_items (PDict d) = Inr d"
| "py_items PNone = Inl AttributeError"
| "py_items (PStr s) = Inl AttributeError"
| "py_items (PObj obj) = Inl NotModelled"

text \<open>A \<open>for\<close> loop whose body may raise.\<close>

fun fold_exn :: "('a \<Rightarrow> 's \<Rightarrow> exn + 's) \<Rightarrow> 'a list \<Rightarrow> 's \<Rightarrow> exn + 's" where
  "fold_exn f [] s = Inr s"
| "fold_exn f (x # xs) s = (case f x s of Inl e \<Rightarrow> Inl e | Inr s' \<Rightarrow> fold_exn f xs s')"

text \<open>\<open>add_doc\<close>: creates the key with the empty string, then appends the entry.\<close>

definition add_doc ::
  "string \<Rightarrow> string \<Rightarrow> pyval \<Rightarrow> string \<Rightarrow> (string \<times> string) list \<Rightarrow> exn + (string \<times> string) list" where
  "add_doc name subname doc level docs =
     (let docs1 = (if name \<notin> fst ` set docs then dict_set name [] docs else docs) in
      case doc_text doc of
        Inl e \<Rightarrow> Inl e
      | Inr text \<Rightarrow>
          (case dict_getitem docs1 name of
             Inl e \<Rightarrow> Inl e
           | Inr old \<Rightarrow>
               Inr (dict_set name
                      (old @ level @ '' '' @ subname @ '':\<newline>'' @ text @ ''\<newline>\<newline>'')
                      docs1)))"

text \<open>The loops over the methods of a class, the objects of a module and the modules of a unit.\<close>

definition method_doc ::
  "string \<Rightarrow> string \<Rightarrow> string \<times> pyval \<Rightarrow> (string \<times> string) list \<Rightarrow> exn + (string \<times> string) list" where
  "method_doc module_name obj_name fi docs =
     (case fi of (func_name, func_info) \<Rightarrow>
        (case py_get func_info ''doc'' (PStr []) of
           Inl e \<Rightarrow> Inl e
         | Inr d \<Rightarrow>
             add_doc module_name (obj_name @ ''.'' @ last (str_split CHR ''.'' func_name))
                     d ''###'' docs))"

definition object_doc ::
  "string \<Rightarrow> string \<times> pyval \<Rightarrow> (string \<times> string) list \<Rightarrow> exn + (string \<times> string) list" where
  "object_doc module_name oi docs =
     (case oi of (obj_key, obj_info) \<Rightarrow>
        let obj_name = last (str_split CHR ''.'' obj_key) in
        (case obj_info of
           PDict od \<Rightarrow>
             (case add_doc module_name obj_name
                     (case map_of od ''doc'' of None \<Rightarrow> PStr [] | Some v \<Rightarrow> v) ''##'' docs of
                Inl e \<Rightarrow> Inl e
              | Inr docs1 \<Rightarrow>
                  (case map_of od ''method'' of
                     None \<Rightarrow> Inr docs1
                   | Some ms \<Rightarrow>
                       (case py_items ms of
                          Inl e \<Rightarrow> Inl e
                        | Inr fs \<Rightarrow> fold_exn (method_doc module_name obj_name) fs docs1)))
         | _ \<Rightarrow> Inr docs))"

definition module_doc ::
  "string \<times> pyval \<Rightarrow> (string \<times> string) list \<Rightarrow> exn + (string \<times> string) list" where
  "module_doc mi docs =
     (case mi of (module_name, module_info) \<Rightarrow>
        (case py_get module_info ''doc'' (PStr []) of
           Inl e \<Rightarrow> Inl e
         | Inr d \<Rightarrow>
             (case add_doc module_name module_name d ''#'' docs of
                Inl e \<Rightarrow> Inl e
              | Inr docs1 \<Rightarrow>
                  (case py_items module_info of
                     Inl e \<Rightarrow> Inl e
                   | Inr items \<Rightarrow> fold_exn (object_doc module_name) items docs1))))"

text \<open>The first two steps for a unit: its own \<open>doc\<close>, then its \<open>module\<close> mapping.\<close>

definition unit_doc ::
  "string \<Rightarrow> (string \<times> pyval) list \<Rightarrow> (string \<times> string) list \<Rightarrow> exn + (string \<times> string) list" where
  "unit_doc name info docs =
     (case (case map_of info ''doc'' of
              None \<Rightarrow> Inr docs
            | Some doc \<Rightarrow> if truthy doc then add_doc name name doc ''#'' docs else Inr docs) of
        Inl e \<Rightarrow> Inl e
      | Inr docs1 \<Rightarrow>
          (case map_of info ''module'' of
             None \<Rightarrow> Inr docs1
           | Some ms \<Rightarrow>
               (case py_items ms of
                  Inl e \<Rightarrow> Inl e
                | Inr mods \<Rightarrow> fold_exn module_doc mods docs1)))"

text \<open>A value stored in a dict is smaller than the dict.\<close>

lemma map_of_size_pyval:
  "map_of d k = Some v \<Longrightarrow> size v < Suc (size_list (size_prod (\<lambda>_. 0) size) d)"
  by (induction d) (auto split: if_splits)

text \<open>\<open>_generate_module_doc_dict\<close>: every unit of the mapping, and its \<open>children\<close> recursively.\<close>

function generate_module_doc_dict ::
  "(string \<times> pyval) list \<Rightarrow> (string \<times> string) list \<Rightarrow> exn + (string \<times> string) list" where
  "generate_module_doc_dict [] docs = Inr docs"
| "generate_module_doc_dict ((name, info) # rest) docs =
     (case info of
        PDict i \<Rightarrow>
          (case unit_doc name i docs of
             Inl e \<Rightarrow> Inl e
           | Inr docs2 \<Rightarrow>
               (case map_of i ''children'' of
                  None \<Rightarrow> generate_module_doc_dict rest docs2
                | Some ch \<Rightarrow>
                    (case ch of
                       PDict c \<Rightarrow>
                         (case generate_module_doc_dict c docs2 of
                            Inl e \<Rightarrow> Inl e
                          | Inr docs3 \<Rightarrow> generate_module_doc_dict rest docs3)
                     | PObj obj \<Rightarrow> Inl NotModelled
                     | _ \<Rightarrow> Inl AttributeError)))
      | PObj obj \<Rightarrow> Inl NotModelled
      | _ \<Rightarrow> Inl AttributeError)"
  by pat_completeness auto
termination
  apply (relation "measure (\<lambda>(d, docs). size_list (size_prod (\<lambda>_. 0) size) d)")
  apply (auto dest: map_of_size_pyval)
  done

section \<open>The agent's state, the discovery pass and the invalidation\<close>

record agent =
  module_dict :: "(string \<times> pyval) list"
  module_doc_dict :: "(string \<times> string) list"

text \<open>
  \<open>_gen_module_dict\<close>: the walk, merged into \<open>self.module_dict\<close>, then the flattener on
  \<open>self.module_doc_dict\<close>. Messages to the logger are not part of the state.
\<close>

definition gen_module_dict :: "unit list \<Rightarrow> dir \<Rightarrow> agent \<Rightarrow> exn + agent" where
  "gen_module_dict units root a =
     (let st = gen_walk units [] root
                 \<lparr>ws_module_dict = module_dict a, processed_packages = []\<rparr>;
          md = ws_module_dict st
      in case generate_module_doc_dict md (module_doc_dict a) of
           Inl e \<Rightarrow> Inl e
         | Inr docs \<Rightarrow> Inr \<lparr>module_dict = md, module_doc_dict = docs\<rparr>)"

text \<open>\<open>del d[k]\<close>.\<close>

definition dict_del :: "'k \<Rightarrow> ('k \<times> 'v) list \<Rightarrow> exn + ('k \<times> 'v) list" where
  "dict_del k d = (if k \<in> fst ` set d then Inr (AList.delete k d) else Inl KeyError)"

text \<open>
  The first part of \<open>_update_module_dict\<close>: the names of \<open>sys.modules\<close> that start with the name
  of a key of \<open>self.module_dict\<close> are collected and deleted. \<open>_gen_module_dict\<close> runs after it.
\<close>

definition modules_to_del :: "string list \<Rightarrow> string list \<Rightarrow> string list" where
  "modules_to_del project_modules names =
     filter (\<lambda>name. list_ex (\<lambda>pm. startswith name pm) project_modules) names"

definition evict_modules :: "agent \<Rightarrow> (string \<times> 'm) list \<Rightarrow> exn + (string \<times> 'm) list" where
  "evict_modules a sys_modules =
     fold_exn dict_del (modules_to_del (map fst (module_dict a)) (map fst sys_modules)) sys_modules"

section \<open>Concrete projects\<close>

text \<open>
  The scenario of the specification: package \<open>app\<close> with \<open>app/__init__.py\<close> and
  \<open>app/models.py\<close>; the module \<open>app.models\<close> has the documentation "User model module" and
  defines class \<open>User\<close> (no documentation) with method \<open>save\<close>, documented "Persists the
  user".
\<close>

definition save_fn :: pyfunc where
  "save_fn = \<lparr>fn_module = ''app.models'', fn_doc = Some ''Persists the user''\<rparr>"

definition user_cls :: pyclass where
  "user_cls = \<lparr>cls_module = ''app.models'', cls_doc = None,
                cls_functions = [(''save'', save_fn)]\<rparr>"

definition models_mod :: pymodule where
  "models_mod = \<lparr>mod_name = ''app.models'', mod_doc = Some ''User model module'',
                  mod_classes = [(''User'', user_cls)], mod_functions = []\<rparr>"

definition app_units :: "unit list" where
  "app_units = [Unit ''app'' True (Inr (stub_module ''app''))
                  [Unit ''app.models'' False (Inr models_mod) []]]"

definition app_root :: dir where
  "app_root = Dir [] [(''app'', Dir [''__init__.py'', ''models.py''] [])]"

text \<open>The agent before the first discovery pass.\<close>

definition new_agent :: agent where
  "new_agent = \<lparr>module_dict = [], module_doc_dict = []\<rparr>"

text \<open>
  Packages nested three deep: \<open>a/__init__.py\<close>, \<open>a/b/__init__.py\<close>, \<open>a/b/c/__init__.py\<close> and
  \<open>a/b/c/m.py\<close>, which defines a class \<open>K\<close>.
\<close>

definition leaf_mod :: pymodule where
  "leaf_mod = \<lparr>mod_name = ''a.b.c.m'', mod_doc = None,
                mod_classes = [(''K'', \<lparr>cls_module = ''a.b.c.m'', cls_doc = None,
                                        cls_functions = []\<rparr>)],
                mod_functions = []\<rparr>"

definition nested_units :: "unit list" where
  "nested_units =
     [Unit ''a'' True (Inr (stub_module ''a''))
        [Unit ''a.b'' True (Inr (stub_module ''a.b''))
           [Unit ''a.b.c'' True (Inr (stub_module ''a.b.c''))
              [Unit ''a.b.c.m'' False (Inr leaf_mod) []]]]]"

definition nested_root :: dir where
  "nested_root =
     Dir [] [(''a'', Dir [''__init__.py'']
               [(''b'', Dir [''__init__.py'']
                  [(''c'', Dir [''__init__.py'', ''m.py''] [])])])]"

text \<open>The \<open>children\<close> and \<open>module\<close> mappings of a node, and the keys of a dict.\<close>

definition children_of :: "pyval \<Rightarrow> (string \<times> pyval) list" where
  "children_of v =
     (case v of
        PDict i \<Rightarrow> (case map_of i ''children'' of Some (PDict c) \<Rightarrow> c | _ \<Rightarrow> [])
      | _ \<Rightarrow> [])"

text \<open>
  Package \<open>pkg\<close> whose only module \<open>pkg.api\<close> re-exports \<open>pathlib.Path\<close> and \<open>json.dumps\<close>
  and declares nothing of its own.
\<close>

definition api_mod :: pymodule where
  "api_mod = \<lparr>mod_name = ''pkg.api'', mod_doc = None,
               mod_classes = [(''Path'', \<lparr>cls_module = ''pathlib'', cls_doc = None,
                                          cls_functions = []\<rparr>)],
               mod_functions = [(''dumps'', \<lparr>fn_module = ''json'', fn_doc = None\<rparr>)]\<rparr>"

definition api_units :: "unit list" where
  "api_units = [Unit ''pkg'' True (Inr (stub_module ''pkg''))
                  [Unit ''pkg.api'' False (Inr api_mod) []]]"

definition api_root :: dir where
  "api_root = Dir [] [(''pkg'', Dir [''__init__.py'', ''api.py''] [])]"

text \<open>
  Module \<open>app.workers\<close> with class \<open>Worker\<close>, a subclass of the class \<open>Base\<close> of another
  package, \<open>vendor.base\<close>: its function members are its own \<open>run\<close> and the inherited \<open>join\<close>,
  declared in \<open>vendor.base\<close>.
\<close>

definition join_fn :: pyfunc where
  "join_fn = \<lparr>fn_module = ''vendor.base'', fn_doc = Some ''Wait for the worker.''\<rparr>"

definition run_fn :: pyfunc where
  "run_fn = \<lparr>fn_module = ''app.workers'', fn_doc = None\<rparr>"

definition worker_cls :: pyclass where
  "worker_cls = \<lparr>cls_module = ''app.workers'', cls_doc = None,
                  cls_functions = [(''join'', join_fn), (''run'', run_fn)]\<rparr>"

definition workers_mod :: pymodule where
  "workers_mod = \<lparr>mod_name = ''app.workers'', mod_doc = None,
                   mod_classes = [(''Worker'', worker_cls)], mod_functions = []\<rparr>"

text \<open>
  Package \<open>a\<close> with the module \<open>a/good.py\<close>, which defines class \<open>K\<close>, and the sub-package
  \<open>a/bad\<close>: in \<open>failing_units\<close> loading \<open>a.bad\<close> raises \<open>ImportError\<close> (a missing
  dependency), in \<open>loading_units\<close> it loads.
\<close>

definition good_mod :: pymodule where
  "good_mod = \<lparr>mod_name = ''a.good'', mod_doc = None,
                mod_classes = [(''K'', \<lparr>cls_module = ''a.good'', cls_doc = None,
                                        cls_functions = []\<rparr>)],
                mod_functions = []\<rparr>"

definition failing_units :: "unit list" where
  "failing_units = [Unit ''a'' True (Inr (stub_module ''a''))
                      [Unit ''a.bad'' True (Inl ImportError) [],
                       Unit ''a.good'' False (Inr good_mod) []]]"

definition loading_units :: "unit list" where
  "loading_units = [Unit ''a'' True (Inr (stub_module ''a''))
                      [Unit ''a.bad'' True (Inr (stub_module ''a.bad'')) [],
                       Unit ''a.good'' False (Inr good_mod) []]]"

definition failing_root :: dir where
  "failing_root = Dir [] [(''a'', Dir [''__init__.py'', ''good.py'']
                            [(''bad'', Dir [''__init__.py''] [])])]"

definition modules_of :: "pyval \<Rightarrow> (string \<times> pyval) list" where
  "modules_of v =
     (case v of
        PDict i \<Rightarrow> (case map_of i ''module'' of Some (PDict c) \<Rightarrow> c | _ \<Rightarrow> [])
      | _ \<Rightarrow> [])"

definition dict_keys :: "pyval \<Rightarrow> string list" where
  "dict_keys v = (case v of PDict d \<Rightarrow> map fst d | _ \<Rightarrow> [])"

declare process_tree_dict.simps [simp del]

section \<open>Properties of the tree renderer\<close>

lemma indent_Suc: "indent (Suc l) = ''  '' @ indent l"
  by (simp add: indent_def)

lemma process_shift:
  "process_tree_dict d (Suc l) = map ((@) ''  '') (process_tree_dict d l)"
proof (induction d l rule: process_tree_dict.induct)
  case (1 d l)
  let ?G = "\<lambda>lv (x :: string \<times> tree). case x of (name, t) \<Rightarrow> (case t of Tree children \<Rightarrow>
                    if children \<noteq> []
                    then (indent lv @ ''- '' @ name @ ''/'')
                         # process_tree_dict children (lv + 1)
                    else [indent lv @ ''- '' @ name])"
  have "map (?G (Suc l)) (sort_key fst d) = map (\<lambda>x. map ((@) ''  '') (?G l x)) (sort_key fst d)"
    apply (rule map_cong[OF refl])
    using 1 by (auto simp: indent_Suc split: tree.splits)
  then show ?case
    by (simp only: process_tree_dict.simps[of d "Suc l"] process_tree_dict.simps[of d l]
          map_concat map_map o_def)
qed

lemma paths_nonempty: "p \<in> set (paths d) \<Longrightarrow> p \<noteq> [] \<and> hd p \<in> fst ` set d"
  by (induction d rule: paths.induct) auto

lemma key_in_paths: "k \<in> fst ` set d \<longleftrightarrow> [k] \<in> set (paths d)"
  by (induction d rule: paths.induct) auto

lemma prefixes_tl: "prefixes ps = [] # tl (prefixes ps)"
  by (cases ps) auto

lemma tl_prefixes_Cons: "tl (prefixes (p # ps)) = [p] # map ((#) p) (tl (prefixes ps))"
  by (cases ps) auto

lemma set_paths_ins: "set (paths (ins ps d)) = set (paths d) \<union> set (tl (prefixes ps))"
proof (induction ps d rule: ins.induct)
  case (1 d)
  then show ?case by simp
next
  case (2 part parts)
  then show ?case by (simp add: tl_prefixes_Cons del: prefixes.simps)
next
  case (3 part parts k c d)
  then show ?case by (auto simp: tl_prefixes_Cons simp del: prefixes.simps)
qed

lemma distinct_paths_ins: "distinct (paths d) \<Longrightarrow> distinct (paths (ins ps d))"
proof (induction ps d rule: ins.induct)
  case (1 d)
  then show ?case by simp
next
  case (2 part parts)
  then have "distinct (paths (ins parts []))" by simp
  then show ?case using paths_nonempty[of "[]" "ins parts []"] by (auto simp: distinct_map)
next
  case (3 part parts k c d)
  have nk: "\<And>p. p \<in> set (paths d) \<Longrightarrow> hd p \<noteq> k"
    using 3(3) paths_nonempty[of _ d] key_in_paths[of k d] by auto
  show ?case
  proof (cases "k = part")
    case True
    with 3 nk paths_nonempty[of "[]"] show ?thesis
      by (fastforce simp: distinct_map)
  next
    case False
    with 3 nk paths_nonempty[of "[]"] show ?thesis
      by (fastforce simp: distinct_map set_paths_ins tl_prefixes_Cons simp del: prefixes.simps)
  qed
qed

lemma length_paths: "length (paths d) = sum_list (map node_count d)"
  by (induction d rule: paths.induct) (auto simp: node_count_def)

lemma sum_list_insort_key:
  "sum_list (map g (insort_key f x xs)) = (g x :: nat) + sum_list (map g xs)"
  by (induction xs) auto

lemma sum_list_sort_key: "sum_list (map g (sort_key f xs)) = (sum_list (map g xs) :: nat)"
  by (induction xs) (auto simp: sum_list_insort_key sort_key_def)

lemma length_process: "length (process_tree_dict d l) = length (paths d)"
proof (induction d l rule: process_tree_dict.induct)
  case (1 d l)
  let ?G = "\<lambda>(x :: string \<times> tree). case x of (name, t) \<Rightarrow> (case t of Tree children \<Rightarrow>
                    if children \<noteq> []
                    then (indent l @ ''- '' @ name @ ''/'')
                         # process_tree_dict children (l + 1)
                    else [indent l @ ''- '' @ name])"
  have "map (\<lambda>x. length (?G x)) (sort_key fst d) = map node_count (sort_key fst d)"
    apply (rule map_cong[OF refl])
    using 1 by (auto simp: node_count_def split: tree.splits)
  then have "length (concat (map ?G (sort_key fst d))) = sum_list (map node_count (sort_key fst d))"
    by (simp only: length_concat map_map o_def)
  then show ?case
    by (simp only: process_tree_dict.simps[of d l] sum_list_sort_key length_paths)
qed

lemma paths_Nil_iff: "paths d = [] \<longleftrightarrow> d = []"
  by (induction d rule: paths.induct) auto

lemma no_key_paths: "k \<notin> fst ` set d \<Longrightarrow> k # p \<notin> set (paths d)"
  using paths_nonempty[of "k # p" d] by auto

lemma Cons_in_image: "(k # p \<in> (#) k' ` S) \<longleftrightarrow> (k = k' \<and> p \<in> S)"
  by auto

lemma child_paths:
  "distinct (map fst d) \<Longrightarrow> (k, Tree c) \<in> set d \<Longrightarrow>
   set (paths c) = {p. p \<noteq> [] \<and> k # p \<in> set (paths d)}"
proof (induction d rule: paths.induct)
  case 1
  then show ?case by simp
next
  case (2 k' c' d)
  show ?case
  proof (cases "k' = k")
    case True
    from 2(3,4) True have cc: "c' = c" by (auto simp: image_iff)
    from 2(3) True have "k \<notin> fst ` set d" by simp
    then have nk: "\<And>p. k # p \<notin> set (paths d)" by (rule no_key_paths)
    have ne: "\<And>p. p \<in> set (paths c) \<Longrightarrow> p \<noteq> []" using paths_nonempty by blast
    show ?thesis
    proof (rule set_eqI)
      fix p
      have "k # p \<in> set (paths ((k', Tree c') # d)) \<longleftrightarrow> p = [] \<or> p \<in> set (paths c)"
        using True cc nk[of p] by (simp add: Cons_in_image)
      then show "p \<in> set (paths c) \<longleftrightarrow> p \<in> {p. p \<noteq> [] \<and> k # p \<in> set (paths ((k', Tree c') # d))}"
        using ne[of p] by blast
    qed
  next
    case False
    with 2(3,4) have in_d: "(k, Tree c) \<in> set d" and dd: "distinct (map fst d)" by auto
    from 2(2)[OF dd in_d] have IH: "set (paths c) = {p. p \<noteq> [] \<and> k # p \<in> set (paths d)}" .
    have "\<And>p. k # p \<in> set (paths ((k', Tree c') # d)) \<longleftrightarrow> k # p \<in> set (paths d)"
      using False by (simp add: Cons_in_image)
    then show ?thesis using IH by simp
  qed
qed

lemma distinct_paths_keys: "distinct (paths d) \<Longrightarrow> distinct (map fst d)"
  by (induction d rule: paths.induct) (auto simp: key_in_paths)

lemma distinct_paths_child: "distinct (paths d) \<Longrightarrow> (k, Tree c) \<in> set d \<Longrightarrow> distinct (paths c)"
  by (induction d rule: paths.induct) (auto simp: distinct_map)


lemma distinct_map_sort_key: "distinct (map f (sort_key f xs)) = distinct (map f xs)"
  by (induction xs) (auto simp: distinct_insort_key)

lemma sort_key_by_keys:
  assumes "distinct (map fst d)"
  shows "sort_key fst d = map (\<lambda>k. (k, the (map_of d k))) (sorted_list_of_set (fst ` set d))"
proof -
  let ?xs = "sort_key fst d"
  have "sorted (map fst ?xs)" by simp
  moreover have "distinct (map fst ?xs)" using assms by (simp add: distinct_map_sort_key)
  moreover have "set (map fst ?xs) = fst ` set d" by simp
  ultimately have ks: "map fst ?xs = sorted_list_of_set (fst ` set d)"
    by (metis List.finite_set distinct_sorted_list_of_set set_sorted_list_of_set
        sorted_distinct_set_unique sorted_sorted_list_of_set)
  have "map (\<lambda>x. (fst x, the (map_of d (fst x)))) ?xs = map (\<lambda>x. x) ?xs"
  proof (rule map_cong[OF refl])
    fix x assume "x \<in> set ?xs"
    then have "(fst x, snd x) \<in> set d" by simp
    then have "map_of d (fst x) = Some (snd x)" using assms by simp
    then show "(fst x, the (map_of d (fst x))) = x" by simp
  qed
  then have "?xs = map (\<lambda>k. (k, the (map_of d k))) (map fst ?xs)"
    by (simp add: o_def)
  then show ?thesis using ks by simp
qed

lemma process_cong:
  "distinct (paths d1) \<Longrightarrow> distinct (paths d2) \<Longrightarrow> set (paths d1) = set (paths d2)
   \<Longrightarrow> process_tree_dict d1 l = process_tree_dict d2 l"
proof (induction d1 l arbitrary: d2 rule: process_tree_dict.induct)
  case (1 d1 l)
  let ?G = "\<lambda>(x :: string \<times> tree). case x of (name, t) \<Rightarrow> (case t of Tree children \<Rightarrow>
                    if children \<noteq> []
                    then (indent l @ ''- '' @ name @ ''/'')
                         # process_tree_dict children (l + 1)
                    else [indent l @ ''- '' @ name])"
  have k1: "distinct (map fst d1)" and k2: "distinct (map fst d2)"
    using 1(2,3) by (auto dest: distinct_paths_keys)
  have keys: "fst ` set d1 = fst ` set d2"
    by (rule set_eqI) (simp only: key_in_paths 1(4))
  let ?ks = "sorted_list_of_set (fst ` set d1)"
  have s1: "sort_key fst d1 = map (\<lambda>k. (k, the (map_of d1 k))) ?ks"
    by (rule sort_key_by_keys[OF k1])
  have s2: "sort_key fst d2 = map (\<lambda>k. (k, the (map_of d2 k))) ?ks"
    using sort_key_by_keys[OF k2] keys by simp
  have "map (\<lambda>k. ?G (k, the (map_of d1 k))) ?ks = map (\<lambda>k. ?G (k, the (map_of d2 k))) ?ks"
  proof (rule map_cong[OF refl])
    fix k assume "k \<in> set ?ks"
    then have kin1: "k \<in> fst ` set d1" by simp
    then have kin2: "k \<in> fst ` set d2" using keys by simp
    from kin1 obtain t1 where t1: "(k, t1) \<in> set d1" by auto
    from kin2 obtain t2 where t2: "(k, t2) \<in> set d2" by auto
    obtain c1 where c1: "t1 = Tree c1" by (cases t1)
    obtain c2 where c2: "t2 = Tree c2" by (cases t2)
    have m1: "map_of d1 k = Some (Tree c1)" using t1 c1 k1 by simp
    have m2: "map_of d2 k = Some (Tree c2)" using t2 c2 k2 by simp
    have pc: "set (paths c1) = set (paths c2)"
      using child_paths[OF k1, of k c1] child_paths[OF k2, of k c2] t1 t2 c1 c2 1(4) by simp
    have dc1: "distinct (paths c1)" using distinct_paths_child[OF 1(2), of k c1] t1 c1 by simp
    have dc2: "distinct (paths c2)" using distinct_paths_child[OF 1(3), of k c2] t2 c2 by simp
    have e: "c1 = [] \<longleftrightarrow> c2 = []"
      using pc paths_Nil_iff[of c1] paths_Nil_iff[of c2] by (metis set_empty)
    show "?G (k, the (map_of d1 k)) = ?G (k, the (map_of d2 k))"
    proof (cases "c1 = []")
      case True
      then show ?thesis using e m1 m2 by simp
    next
      case False
      have "(k, Tree c1) \<in> set (sort_key fst d1)" using t1 c1 by simp
      from 1(1)[OF this refl refl False dc1 dc2 pc]
      have "process_tree_dict c1 (l + 1) = process_tree_dict c2 (l + 1)" .
      then show ?thesis using False e m1 m2 by simp
    qed
  qed
  then show ?case
    by (simp only: process_tree_dict.simps[of d1 l] process_tree_dict.simps[of d2 l] s1 s2
          map_map o_def)
qed

lemma str_split_no_sep: "sep \<notin> set x \<Longrightarrow> str_split sep x = [x]"
  by (induction x) auto

lemma str_split_append:
  "sep \<notin> set x \<Longrightarrow> str_split sep (x @ sep # r) = x # str_split sep r"
  by (induction x) auto

lemma str_split_join:
  "ls \<noteq> [] \<Longrightarrow> (\<And>ln. ln \<in> set ls \<Longrightarrow> sep \<notin> set ln) \<Longrightarrow> str_split sep (str_join [sep] ls) = ls"
proof (induction "[sep]" ls rule: str_join.induct)
  case 1
  then show ?case by simp
next
  case (2 x)
  then show ?case by (simp add: str_split_no_sep)
next
  case (3 x y ys)
  then show ?case by (simp add: str_split_append)
qed

lemma str_join_Nil_iff: "ls \<noteq> [] \<Longrightarrow> hd ls \<noteq> [] \<Longrightarrow> str_join sep ls \<noteq> []"
  by (induction sep ls rule: str_join.induct) auto

lemma str_split_chars_all: "\<forall>x \<in> set (str_split sep s). set x \<subseteq> set s"
  by (induction s) (auto split: list.splits)

lemma str_split_chars: "x \<in> set (str_split sep s) \<Longrightarrow> set x \<subseteq> set s"
  using str_split_chars_all by blast

lemma in_set_tl: "x \<in> set (tl xs) \<Longrightarrow> x \<in> set xs"
  by (cases xs) auto

lemma in_paths_head: "(k, t) \<in> set d \<Longrightarrow> [k] \<in> set (paths d)"
  using key_in_paths[of k d] by force

lemma in_paths_child: "(k, Tree c) \<in> set d \<Longrightarrow> p \<in> set (paths c) \<Longrightarrow> k # p \<in> set (paths d)"
  by (induction d rule: paths.induct) auto

lemma process_line_shape:
  "ln \<in> set (process_tree_dict d l) \<Longrightarrow>
   \<exists>p \<in> set (paths d). ln = indent (l + length p - 1) @ ''- '' @ last p \<or>
                          ln = indent (l + length p - 1) @ ''- '' @ last p @ ''/''"
proof (induction d l arbitrary: ln rule: process_tree_dict.induct)
  case (1 d l)
  from 1(2) obtain k t where kt: "(k, t) \<in> set d" and
    ln: "ln \<in> set (case t of Tree children \<Rightarrow>
                    if children \<noteq> []
                    then (indent l @ ''- '' @ k @ ''/'') # process_tree_dict children (l + 1)
                    else [indent l @ ''- '' @ k])"
    by (subst (asm) process_tree_dict.simps) auto
  obtain c where c: "t = Tree c" by (cases t)
  have hd: "[k] \<in> set (paths d)" using kt by (rule in_paths_head)
  show ?case
  proof (cases "ln = indent l @ ''- '' @ k \<or> ln = indent l @ ''- '' @ k @ ''/''")
    case True
    then show ?thesis using hd by force
  next
    case False
    with ln c have ne: "c \<noteq> []" and inl: "ln \<in> set (process_tree_dict c (l + 1))"
      by (auto split: if_splits)
    have "(k, Tree c) \<in> set (sort_key fst d)" using kt c by simp
    from 1(1)[OF this refl refl ne inl] obtain p where p: "p \<in> set (paths c)"
      and s: "ln = indent (l + 1 + length p - 1) @ ''- '' @ last p \<or>
              ln = indent (l + 1 + length p - 1) @ ''- '' @ last p @ ''/''" by blast
    have pne: "p \<noteq> []" using p paths_nonempty by blast
    have "k # p \<in> set (paths d)" using kt c p by (auto intro: in_paths_child)
    moreover have "l + length (k # p) - 1 = l + 1 + length p - 1" by simp
    moreover have "last (k # p) = last p" using pne by simp
    ultimately show ?thesis using s by metis
  qed
qed

lemma set_indent: "set (indent l) \<subseteq> {CHR '' ''}"
  by (induction l) (auto simp: indent_def)

lemma process_line_nonempty: "ln \<in> set (process_tree_dict d l) \<Longrightarrow> ln \<noteq> []"
  using process_line_shape[of ln d l] by auto

lemma process_line_chars:
  assumes "ln \<in> set (process_tree_dict d l)" and "x \<in> set ln"
  shows "x \<in> {CHR '' '', CHR ''-'', CHR ''/''} \<or> (\<exists>p \<in> set (paths d). \<exists>seg \<in> set p. x \<in> set seg)"
proof -
  from process_line_shape[OF assms(1)] obtain p where p: "p \<in> set (paths d)"
    and s: "ln = indent (l + length p - 1) @ ''- '' @ last p \<or>
            ln = indent (l + length p - 1) @ ''- '' @ last p @ ''/''" by blast
  have pne: "p \<noteq> []" using p paths_nonempty by blast
  from s assms(2) have "x \<in> set (indent (l + length p - 1)) \<or> x \<in> {CHR '' '', CHR ''-'', CHR ''/''} \<or> x \<in> set (last p)"
    by auto
  then show ?thesis using set_indent[of "l + length p - 1"] p pne last_in_set[OF pne] by blast
qed

lemma set_paths_fold:
  "set (paths (fold (\<lambda>n. ins (str_split CHR ''.'' n)) names d))
   = set (paths d) \<union> segment_paths names"
  by (induction names arbitrary: d) (auto simp: segment_paths_def set_paths_ins simp del: prefixes.simps)

lemma distinct_paths_fold:
  "distinct (paths d) \<Longrightarrow> distinct (paths (fold (\<lambda>n. ins (str_split CHR ''.'' n)) names d))"
  by (induction names arbitrary: d) (auto simp: distinct_paths_ins)

lemma set_paths_build: "set (paths (build_tree_dict names)) = segment_paths names"
  by (simp add: build_tree_dict_def set_paths_fold)

lemma distinct_paths_build: "distinct (paths (build_tree_dict names))"
  by (simp add: build_tree_dict_def distinct_paths_fold)

lemma segment_paths_chars:
  "p \<in> segment_paths names \<Longrightarrow> seg \<in> set p \<Longrightarrow> x \<in> set seg \<Longrightarrow> \<exists>n \<in> set names. x \<in> set n"
proof -
  assume a: "p \<in> segment_paths names" "seg \<in> set p" "x \<in> set seg"
  then obtain n where n: "n \<in> set names" and pp: "p \<in> set (prefixes (str_split CHR ''.'' n))"
    by (auto simp: segment_paths_def dest: in_set_tl)
  then have "prefix p (str_split CHR ''.'' n)" by (simp add: in_set_prefixes)
  then have "seg \<in> set (str_split CHR ''.'' n)" using a(2) by (auto simp: prefix_def)
  then show ?thesis using str_split_chars a(3) n by blast
qed

lemma segment_paths_alt:
  "segment_paths names = {p. p \<noteq> [] \<and> (\<exists>n \<in> set names. prefix p (str_split CHR ''.'' n))}"
proof -
  have "\<And>xs. set (tl (prefixes xs)) = {p. p \<noteq> [] \<and> prefix p (xs :: string list)}"
  proof -
    fix xs :: "string list"
    have "set (prefixes xs) = insert [] (set (tl (prefixes xs)))"
      by (subst prefixes_tl) simp
    moreover have "[] \<notin> set (tl (prefixes xs))"
      by (cases xs) auto
    ultimately show "set (tl (prefixes xs)) = {p. p \<noteq> [] \<and> prefix p xs}"
      using in_set_prefixes[of _ xs] by blast
  qed
  then show ?thesis by (auto simp: segment_paths_def)
qed

lemma length_process_build:
  "length (process_tree_dict (build_tree_dict names) 0) = card (segment_paths names)"
  using distinct_card[OF distinct_paths_build[of names]]
  by (simp add: length_process set_paths_build)

lemma str_split_ne: "str_split sep s \<noteq> []"
  by (induction s) (auto split: list.splits)

lemma process_build_ne:
  assumes "names \<noteq> []"
  shows "process_tree_dict (build_tree_dict names) 0 \<noteq> []"
proof -
  obtain n ns where n: "names = n # ns" using assms by (cases names) auto
  obtain x xs where x: "str_split CHR ''.'' n = x # xs"
    using str_split_ne[of "CHR ''.''" n] by (cases "str_split CHR ''.'' n") auto
  have "[x] \<in> segment_paths names"
    using n x by (simp add: segment_paths_def)
  then have "paths (build_tree_dict names) \<noteq> []"
    using set_paths_build[of names] by auto
  then have "length (process_tree_dict (build_tree_dict names) 0) \<noteq> 0"
    by (simp add: length_process)
  then show ?thesis by auto
qed

text \<open>
  Claim C8 as stated fails at two inputs. For the empty collection the output is the empty
  string, whose split at newlines is the one-element list of the empty string, while there is
  no segment path. For the single name made of \<open>a\<close>, a newline and \<open>b\<close> there is one segment
  path and one rendered line, but that line holds the newline, so the split has two elements.
\<close>

theorem render_tree_line_count_counterexample:
  "generate_project_tree [] = []
   \<and> length (str_split CHR 0x0A (generate_project_tree [])) = 1
   \<and> card (segment_paths []) = 0
   \<and> length (str_split CHR 0x0A (generate_project_tree [''a\<newline>b''])) = 2
   \<and> card (segment_paths [''a\<newline>b'']) = 1"
  by (simp add: generate_project_tree_def build_tree_dict_def indent_def
        process_tree_dict.simps segment_paths_def)

text \<open>
  Claim C8, amended. The renderer produces one line per distinct segment path of the input
  names: the list of rendered lines has \<open>card (segment_paths names)\<close> elements for every
  input. For a non-empty collection of names none of which contains a newline character, the
  output text split on newlines has exactly that many lines; for the empty collection the
  output is the empty string. The output depends only on the set of names: two input orders of
  the same set give the same text.
\<close>

theorem render_tree_line_count:
  "length (process_tree_dict (build_tree_dict names) 0) = card (segment_paths names)
   \<and> (names \<noteq> [] \<and> (\<forall>n \<in> set names. CHR 0x0A \<notin> set n) \<longrightarrow>
        length (str_split CHR 0x0A (generate_project_tree names)) = card (segment_paths names))
   \<and> (names = [] \<longrightarrow> generate_project_tree names = [])
   \<and> (set names = set names' \<longrightarrow> generate_project_tree names = generate_project_tree names')"
proof (intro conjI impI)
  show "length (process_tree_dict (build_tree_dict names) 0) = card (segment_paths names)"
    by (rule length_process_build)
next
  assume a: "names \<noteq> [] \<and> (\<forall>n \<in> set names. CHR 0x0A \<notin> set n)"
  then have ne: "names \<noteq> []" and nl: "\<forall>n \<in> set names. CHR 0x0A \<notin> set n" by simp_all
  have free: "\<And>ln. ln \<in> set (process_tree_dict (build_tree_dict names) 0)
          \<Longrightarrow> CHR 0x0A \<notin> set ln"
  proof
    fix ln assume ln: "ln \<in> set (process_tree_dict (build_tree_dict names) 0)"
    assume "CHR 0x0A \<in> set ln"
    from process_line_chars[OF ln this]
    obtain p seg where "p \<in> set (paths (build_tree_dict names))" "seg \<in> set p"
      "CHR 0x0A \<in> set seg" by auto
    then obtain n where "n \<in> set names" "CHR 0x0A \<in> set n"
      using segment_paths_chars[of p names seg "CHR 0x0A"] by (auto simp: set_paths_build)
    then show False using nl by blast
  qed
  have "str_split CHR 0x0A (str_join [CHR 0x0A] (process_tree_dict (build_tree_dict names) 0))
          = process_tree_dict (build_tree_dict names) 0"
    by (rule str_split_join[OF process_build_ne[OF ne] free])
  then show "length (str_split CHR 0x0A (generate_project_tree names)) = card (segment_paths names)"
    by (simp add: generate_project_tree_def length_process_build)
next
  assume "names = []"
  then show "generate_project_tree names = []"
    by (simp add: generate_project_tree_def build_tree_dict_def process_tree_dict.simps)
next
  assume "set names = set names'"
  then have "segment_paths names = segment_paths names'" by (simp add: segment_paths_def)
  then have "set (paths (build_tree_dict names)) = set (paths (build_tree_dict names'))"
    by (simp add: set_paths_build)
  then have "process_tree_dict (build_tree_dict names) 0 = process_tree_dict (build_tree_dict names') 0"
    by (rule process_cong[OF distinct_paths_build distinct_paths_build])
  then show "generate_project_tree names = generate_project_tree names'"
    by (simp add: generate_project_tree_def)
qed

text \<open>
  Claim C8, amended, at three names given in two orders: four lines, four segment paths,
  the same text.
\<close>

theorem render_tree_line_count_witness:
  "length (str_split CHR 0x0A (generate_project_tree [''app.models'', ''b'', ''app.views''])) = 4
   \<and> card (segment_paths [''app.models'', ''b'', ''app.views'']) = 4
   \<and> generate_project_tree [''app.models'', ''b'', ''app.views'']
     = generate_project_tree [''b'', ''app.views'', ''app.models'']"
proof -
  have a: "[''app.models'', ''b'', ''app.views''] \<noteq> []
           \<and> (\<forall>n \<in> set [''app.models'', ''b'', ''app.views'']. CHR 0x0A \<notin> set n)" by simp
  have b: "set [''app.models'', ''b'', ''app.views''] = set [''b'', ''app.views'', ''app.models'']"
    by auto
  have c: "card (segment_paths [''app.models'', ''b'', ''app.views'']) = 4"
    by code_simp
  note t = render_tree_line_count[of "[''app.models'', ''b'', ''app.views'']"
      "[''b'', ''app.views'', ''app.models'']"]
  from t a have l: "length (str_split CHR 0x0A
        (generate_project_tree [''app.models'', ''b'', ''app.views'']))
      = card (segment_paths [''app.models'', ''b'', ''app.views''])" by blast
  from t b have e: "generate_project_tree [''app.models'', ''b'', ''app.views'']
     = generate_project_tree [''b'', ''app.views'', ''app.models'']" by blast
  from l c have "length (str_split CHR 0x0A
        (generate_project_tree [''app.models'', ''b'', ''app.views''])) = 4"
    by (simp only:)
  with c e show ?thesis by blast
qed

text \<open>
  Claim C9. At every level the siblings are taken in lexicographic order of their segments;
  a node with children is the line \<open>indent - segment/\<close> followed by the lines of its children,
  each two spaces deeper; a leaf is the line \<open>indent - segment\<close>; the indent is two spaces per
  level and the lines are joined by newlines. Rendering \<open>app.models\<close> gives
  \<open>- app/\<close>, newline, \<open>  - models\<close>.
\<close>

theorem render_tree_shape:
  "process_tree_dict d level =
     concat (map (\<lambda>(name, t). case t of Tree children \<Rightarrow>
                    if children \<noteq> []
                    then (indent level @ ''- '' @ name @ ''/'')
                         # map ((@) ''  '') (process_tree_dict children level)
                    else [indent level @ ''- '' @ name])
                 (sort_key fst d))
   \<and> sorted (map fst (sort_key fst d)) \<and> set (sort_key fst d) = set d
   \<and> indent level = replicate (2 * level) CHR '' ''
   \<and> generate_project_tree names
       = str_join ''\<newline>'' (process_tree_dict (build_tree_dict names) 0)
   \<and> generate_project_tree [''app.models''] = ''- app/\<newline>  - models''"
proof (intro conjI)
  show "process_tree_dict d level =
     concat (map (\<lambda>(name, t). case t of Tree children \<Rightarrow>
                    if children \<noteq> []
                    then (indent level @ ''- '' @ name @ ''/'')
                         # map ((@) ''  '') (process_tree_dict children level)
                    else [indent level @ ''- '' @ name])
                 (sort_key fst d))"
    by (subst process_tree_dict.simps) (simp add: process_shift cong: if_cong)
  show "indent level = replicate (2 * level) CHR '' ''"
    by (induction level) (simp_all add: indent_def)
  show "generate_project_tree [''app.models''] = ''- app/\<newline>  - models''"
    by (simp add: generate_project_tree_def build_tree_dict_def indent_def process_tree_dict.simps)
qed (simp_all add: generate_project_tree_def)

section \<open>Properties of \<open>get_module_doc\<close>\<close>

text \<open>
  Claim C10. \<open>get_module_doc\<close> returns a string for every name and never raises: for a name
  that is not a key of the Doc Index the message \<open>Module name does not exist\<close>, otherwise the
  first 2000 characters of the stored text (the whole text when it is not longer). The function
  only reads the Doc Index.
\<close>

theorem get_module_doc_never_raises:
  "(\<exists>s. get_module_doc doc_index module_name = Inr s)
   \<and> (module_name \<notin> fst ` set doc_index \<longrightarrow>
        get_module_doc doc_index module_name
          = Inr (''Module '' @ module_name @ '' does not exist''))
   \<and> (\<forall>doc. map_of doc_index module_name = Some doc \<longrightarrow>
        get_module_doc doc_index module_name = Inr (take 2000 doc)
        \<and> length (take 2000 doc) \<le> 2000 \<and> prefix (take 2000 doc) doc
        \<and> (length doc \<le> 2000 \<longrightarrow> take 2000 doc = doc))"
  by (cases "map_of doc_index module_name")
     (simp_all add: get_module_doc_def dict_getitem_def map_of_eq_None_iff[symmetric]
        take_is_prefix)

text \<open>Claim C10 at a Doc Index with one key, asked for that key and for another name.\<close>

theorem get_module_doc_never_raises_witness:
  "get_module_doc [(''app.models'', ''# app.models:'')] ''app.views''
     = Inr ''Module app.views does not exist''
   \<and> get_module_doc [(''app.models'', ''# app.models:'')] ''app.models'' = Inr ''# app.models:''"
  using get_module_doc_never_raises[of "[(''app.models'', ''# app.models:'')]" "''app.views''"]
    get_module_doc_never_raises[of "[(''app.models'', ''# app.models:'')]" "''app.models''"]
  by simp

section \<open>Properties of the entity extractor\<close>

lemma map_of_dict_set: "map_of (dict_set k v d) = (map_of d)(k \<mapsto> v)"
  by (simp add: dict_set_def update_conv')

lemma dict_set_ne: "dict_set k v d \<noteq> []"
  by (cases d) (auto simp: dict_set_def)

lemma fold_cond_ne:
  "d \<noteq> [] \<Longrightarrow> fold (\<lambda>(n, obj) m. if c n obj then m else dict_set (key n obj) (val n obj) m) xs d \<noteq> []"
proof (induction xs arbitrary: d)
  case Nil
  then show ?case by simp
next
  case (Cons x xs)
  obtain n obj where x: "x = (n, obj)" by (cases x)
  show ?case
  proof (cases "c n obj")
    case True
    then show ?thesis using x Cons by simp
  next
    case False
    have "dict_set (key n obj) (val n obj) d \<noteq> []" by (rule dict_set_ne)
    from Cons(1)[OF this] show ?thesis using x False by simp
  qed
qed

lemma fold_cond_skip_all:
  "(\<And>n obj. (n, obj) \<in> set xs \<Longrightarrow> c n obj)
   \<Longrightarrow> fold (\<lambda>(n, obj) m. if c n obj then m else dict_set (key n obj) (val n obj) m) xs d = d"
proof (induction xs arbitrary: d)
  case Nil
  then show ?case by simp
next
  case (Cons x xs)
  obtain n obj where x: "x = (n, obj)" by (cases x)
  have "c n obj" using Cons(2)[of n obj] x by simp
  moreover have "fold (\<lambda>(n, obj) m. if c n obj then m else dict_set (key n obj) (val n obj) m) xs d = d"
    using Cons by simp
  ultimately show ?case using x by simp
qed

lemma map_of_fold_other:
  "(\<And>n obj. (n, obj) \<in> set xs \<Longrightarrow> \<not> c n obj \<Longrightarrow> key n obj \<noteq> k)
   \<Longrightarrow> map_of (fold (\<lambda>(n, obj) m. if c n obj then m else dict_set (key n obj) (val n obj) m) xs d) k
       = map_of d k"
proof (induction xs arbitrary: d)
  case Nil
  then show ?case by simp
next
  case (Cons x xs)
  obtain n obj where x: "x = (n, obj)" by (cases x)
  have rest: "\<And>d'. map_of (fold (\<lambda>(n, obj) m. if c n obj then m else dict_set (key n obj) (val n obj) m) xs d') k
       = map_of d' k"
    using Cons by simp
  show ?case
  proof (cases "c n obj")
    case True
    then show ?thesis using x rest by simp
  next
    case False
    then have "key n obj \<noteq> k" using Cons(2)[of n obj] x by simp
    then show ?thesis using x False rest by (simp add: map_of_dict_set)
  qed
qed

lemma map_of_fold_hit:
  assumes "distinct (map fst xs)" and "(n, obj) \<in> set xs" and "\<not> c n obj"
    and "\<And>n' obj'. (n', obj') \<in> set xs \<Longrightarrow> n' \<noteq> n \<Longrightarrow> key n' obj' \<noteq> key n obj"
  shows "map_of (fold (\<lambda>(n, obj) m. if c n obj then m else dict_set (key n obj) (val n obj) m) xs d)
           (key n obj) = Some (val n obj)"
  using assms
proof (induction xs arbitrary: d)
  case Nil
  then show ?case by simp
next
  case (Cons x xs)
  obtain a b where x: "x = (a, b)" by (cases x)
  show ?case
  proof (cases "(a, b) = (n, obj)")
    case True
    have notin: "n \<notin> fst ` set xs" using Cons(2) x True by simp
    have "\<And>n' obj'. (n', obj') \<in> set xs \<Longrightarrow> \<not> c n' obj' \<Longrightarrow> key n' obj' \<noteq> key n obj"
    proof -
      fix n' obj' assume i: "(n', obj') \<in> set xs"
      then have "n' \<noteq> n" using notin by force
      then show "key n' obj' \<noteq> key n obj" using Cons(5)[of n' obj'] i by simp
    qed
    then have "map_of (fold (\<lambda>(n, obj) m. if c n obj then m else dict_set (key n obj) (val n obj) m) xs
                 (dict_set (key n obj) (val n obj) d)) (key n obj)
               = map_of (dict_set (key n obj) (val n obj) d) (key n obj)"
      by (rule map_of_fold_other)
    then show ?thesis using x True Cons(4) by (simp add: map_of_dict_set)
  next
    case False
    then have in_xs: "(n, obj) \<in> set xs" using Cons(3) x by auto
    have d: "distinct (map fst xs)" using Cons(2) by simp
    have k: "\<And>n' obj'. (n', obj') \<in> set xs \<Longrightarrow> n' \<noteq> n \<Longrightarrow> key n' obj' \<noteq> key n obj"
      using Cons(5) by simp
    from Cons(1)[OF d in_xs Cons(4) k] show ?thesis using x by simp
  qed
qed

lemma process_module_never_empty: "process_module module f_module_name \<noteq> []"
proof -
  have "fold (\<lambda>(name, obj) m_dict.
                       if \<not> startswith (fn_module obj) (mod_name module) then m_dict
                       else dict_set (f_module_name @ ''.'' @ name)
                              (PDict [(''doc'', doc_val (fn_doc obj)),
                                      (''obj'', PObj (ObjFunc obj))])
                              m_dict)
                    (mod_functions module) m1 \<noteq> []" if "m1 \<noteq> []" for m1
    using that by (rule fold_cond_ne)
  moreover have "fold (\<lambda>(name, obj) m_dict.
                       if \<not> startswith (cls_module obj) (mod_name module) then m_dict
                       else dict_set (get_abs_name f_module_name name)
                              (PDict [(''doc'', doc_val (cls_doc obj)),
                                      (''obj'', PObj (ObjClass obj)),
                                      (''method'', PDict (class_methods f_module_name name obj))])
                              m_dict)
                    (mod_classes module) [(''obj'', PObj (ObjModule module))] \<noteq> []"
    by (rule fold_cond_ne) simp
  ultimately show ?thesis by (simp add: process_module_def Let_def)
qed

lemma process_module_no_owned_entity:
  assumes "\<And>name obj. (name, obj) \<in> set (mod_classes module)
             \<Longrightarrow> \<not> startswith (cls_module obj) (mod_name module)"
    and "\<And>name obj. (name, obj) \<in> set (mod_functions module)
             \<Longrightarrow> \<not> startswith (fn_module obj) (mod_name module)"
  shows "process_module module f_module_name
           = [(mod_name module, PDict [(''obj'', PObj (ObjModule module))])]"
  using assms by (simp add: process_module_def Let_def fold_cond_skip_all)

lemma get_abs_name_prefixed:
  "f \<noteq> [] \<Longrightarrow> hd f \<noteq> CHR ''.'' \<Longrightarrow> get_abs_name f x = f @ ''.'' @ x"
  by (cases f) (simp_all add: get_abs_name_def lstrip_dot_def)

lemma get_abs_name_empty:
  "x \<noteq> [] \<Longrightarrow> hd x \<noteq> CHR ''.'' \<Longrightarrow> get_abs_name [] x = x"
  by (cases x) (simp_all add: get_abs_name_def lstrip_dot_def)

lemma class_methods_lookup:
  assumes "f \<noteq> []" "hd f \<noteq> CHR ''.''"
    and "distinct (map fst (cls_functions obj))"
    and "(method_name, method_obj) \<in> set (cls_functions obj)"
  shows "map_of (class_methods f name obj) (f @ ''.'' @ name @ ''.'' @ method_name)
           = Some (PDict [(''doc'', doc_val (fn_doc method_obj)),
                          (''obj'', PObj (ObjFunc method_obj))])"
proof -
  have "map_of (fold (\<lambda>(n, obj) m. if False then m
                      else dict_set (f @ ''.'' @ name @ ''.'' @ n)
                             (PDict [(''doc'', doc_val (fn_doc obj)), (''obj'', PObj (ObjFunc obj))]) m)
                (cls_functions obj) [])
          (f @ ''.'' @ name @ ''.'' @ method_name)
        = Some (PDict [(''doc'', doc_val (fn_doc method_obj)), (''obj'', PObj (ObjFunc method_obj))])"
    by (rule map_of_fold_hit[where c = "\<lambda>_ _. False" and key = "\<lambda>n _. f @ ''.'' @ name @ ''.'' @ n",
          OF assms(3) assms(4)]) simp_all
  then show ?thesis
    using assms(1,2) by (simp add: class_methods_def get_abs_name_prefixed)
qed

text \<open>
  Claim C4, amended. For a module processed with a non-empty name prefix that does not start
  with a dot (in \<open>_process_package\<close> the prefix is the module's dotted name), every function
  member of a class that passes the ownership test is stored in that class's method mapping
  under the key \<open>prefix.ClassName.methodName\<close>, the class itself under \<open>prefix.ClassName\<close>.
  Class names and member names are unique, and no function has the class's name.
\<close>

theorem method_keys_qualified:
  assumes "f_module_name \<noteq> []" "hd f_module_name \<noteq> CHR ''.''"
    and "distinct (map fst (mod_classes module))"
    and "(name, obj) \<in> set (mod_classes module)"
    and "startswith (cls_module obj) (mod_name module)"
    and "name \<notin> fst ` set (mod_functions module)"
    and "distinct (map fst (cls_functions obj))"
    and "(method_name, method_obj) \<in> set (cls_functions obj)"
  shows "\<exists>m_dict methods.
           process_module module f_module_name = [(mod_name module, PDict m_dict)]
         \<and> map_of m_dict (f_module_name @ ''.'' @ name)
             = Some (PDict [(''doc'', doc_val (cls_doc obj)), (''obj'', PObj (ObjClass obj)),
                            (''method'', PDict methods)])
         \<and> map_of methods (f_module_name @ ''.'' @ name @ ''.'' @ method_name)
             = Some (PDict [(''doc'', doc_val (fn_doc method_obj)),
                            (''obj'', PObj (ObjFunc method_obj))])"
proof -
  let ?f = f_module_name
  let ?m0 = "[(''obj'', PObj (ObjModule module))]"
  let ?cval = "\<lambda>n obj. PDict [(''doc'', doc_val (cls_doc obj)), (''obj'', PObj (ObjClass obj)),
                              (''method'', PDict (class_methods ?f n obj))]"
  let ?m1 = "fold (\<lambda>(n, obj) m. if \<not> startswith (cls_module obj) (mod_name module) then m
                      else dict_set (?f @ ''.'' @ n) (?cval n obj) m) (mod_classes module) ?m0"
  let ?m2 = "fold (\<lambda>(n, obj) m. if \<not> startswith (fn_module obj) (mod_name module) then m
                      else dict_set (?f @ ''.'' @ n)
                             (PDict [(''doc'', doc_val (fn_doc obj)), (''obj'', PObj (ObjFunc obj))]) m)
                  (mod_functions module) ?m1"
  have pm: "process_module module ?f = (if ?m2 = [] then [] else [(mod_name module, PDict ?m2)])"
    using assms(1,2) by (simp add: process_module_def Let_def get_abs_name_prefixed cong: if_cong)
  have h1: "map_of ?m1 (?f @ ''.'' @ name) = Some (?cval name obj)"
    by (rule map_of_fold_hit[where c = "\<lambda>n obj. \<not> startswith (cls_module obj) (mod_name module)"
          and key = "\<lambda>n _. ?f @ ''.'' @ n" and val = ?cval, OF assms(3) assms(4)])
       (simp_all add: assms(5))
  have "map_of ?m2 (?f @ ''.'' @ name) = map_of ?m1 (?f @ ''.'' @ name)"
  proof (rule map_of_fold_other)
    fix n obj' assume "(n, obj') \<in> set (mod_functions module)"
    then have "n \<noteq> name" using assms(6) by force
    then show "?f @ ''.'' @ n \<noteq> ?f @ ''.'' @ name" by simp
  qed
  with h1 have h2: "map_of ?m2 (?f @ ''.'' @ name) = Some (?cval name obj)" by simp
  then have ne: "?m2 \<noteq> []" by auto
  have h3: "map_of (class_methods ?f name obj) (?f @ ''.'' @ name @ ''.'' @ method_name)
          = Some (PDict [(''doc'', doc_val (fn_doc method_obj)), (''obj'', PObj (ObjFunc method_obj))])"
    by (rule class_methods_lookup[OF assms(1,2,7,8)])
  from pm ne have "process_module module ?f = [(mod_name module, PDict ?m2)]" by simp
  with h2 h3 show ?thesis by blast
qed

text \<open>Claim C4, amended, at the scenario: \<open>save\<close> is keyed \<open>app.models.User.save\<close>.\<close>

theorem method_keys_qualified_witness:
  "\<exists>m_dict methods.
           process_module models_mod ''app.models'' = [(''app.models'', PDict m_dict)]
         \<and> map_of m_dict ''app.models.User''
             = Some (PDict [(''doc'', PNone), (''obj'', PObj (ObjClass user_cls)),
                            (''method'', PDict methods)])
         \<and> map_of methods ''app.models.User.save''
             = Some (PDict [(''doc'', PStr ''Persists the user''),
                            (''obj'', PObj (ObjFunc save_fn))])"
  using method_keys_qualified[of "''app.models''" models_mod "''User''" user_cls "''save''" save_fn]
  by (simp add: models_mod_def user_cls_def save_fn_def startswith_def doc_val_def)

section \<open>The discovery pass on concrete projects\<close>

text \<open>
  Claim C1 says that no package is both inside a merged ancestor's subtree and a top-level
  entry of its own, at any nesting depth. The check in \<open>_gen_module_dict\<close> looks only for the
  direct parent in \<open>processed_packages\<close>, and a skipped package is not added to that set. On
  the packages nested three deep the pass gives two top-level entries, \<open>a\<close> and \<open>a.b.c\<close>,
  and \<open>a.b.c\<close> is also among the children of \<open>a\<close>.
\<close>

theorem nested_package_emitted_twice:
  "map_sum id (\<lambda>a. map (\<lambda>(k, v). (k, map fst (children_of v))) (module_dict a))
           (gen_module_dict nested_units nested_root new_agent)
     = Inr [(''a'', [''a.b'', ''a.b.c'']), (''a.b.c'', [])]"
  by code_simp

text \<open>
  Claim C2 says that a module in which nothing passes the ownership test gives an empty
  result, and that a package with no qualifying entity below it has no entry in the
  Structural Graph. \<open>_process_module\<close> starts \<open>m_dict\<close> with the key \<open>obj\<close>, so its test
  \<open>if not m_dict\<close> never holds: for the module \<open>pkg.api\<close>, which only re-exports, the result is
  the one-key entry, and the package \<open>pkg\<close> is recorded with that module.
\<close>

theorem module_without_entities_recorded:
  "process_module api_mod ''pkg.api'' = [(''pkg.api'', PDict [(''obj'', PObj (ObjModule api_mod))])]
   \<and> map_sum id module_dict (gen_module_dict api_units api_root new_agent)
       = Inr [(''pkg'', PDict [(''obj'', PObj (ObjModule (stub_module ''pkg''))),
                               (''children'', PDict []),
                               (''module'', PDict [(''pkg.api'',
                                   PDict [(''obj'', PObj (ObjModule api_mod))])])])]"
  by code_simp

text \<open>
  Claim C3 gives the Doc Index entry of \<open>app.models\<close> in the scenario, with the module's
  documentation after the first heading. The flattener reads \<open>module_info.get("doc", "")\<close>,
  but \<open>_process_module\<close> never stores a \<open>doc\<close> key for the module: the entry has an empty text
  after the heading \<open># app.models:\<close>, although the module's documentation is "User model
  module". The class and method entries are as the claim gives them.
\<close>

theorem module_doc_missing_from_doc_index:
  "mod_doc models_mod = Some ''User model module''
   \<and> map_sum id module_doc_dict (gen_module_dict app_units app_root new_agent)
     = Inr [(''app.models'',
             ''# app.models:\<newline>\<newline>\<newline>## User:\<newline>\<newline>\<newline>### User.save:\<newline>Persists the user\<newline>\<newline>'')]"
  by code_simp

text \<open>
  Claim C4 as stated says that method \<open>save\<close> of class \<open>User\<close> in module \<open>app.models\<close> is keyed
  \<open>User.save\<close>. In the scenario the method mapping of \<open>User\<close> has the one key
  \<open>app.models.User.save\<close>, and no key \<open>User.save\<close>.
\<close>

theorem method_key_counterexample:
  "process_module models_mod ''app.models''
     = [(''app.models'',
         PDict [(''obj'', PObj (ObjModule models_mod)),
                (''app.models.User'',
                 PDict [(''doc'', PNone), (''obj'', PObj (ObjClass user_cls)),
                        (''method'',
                         PDict [(''app.models.User.save'',
                                 PDict [(''doc'', PStr ''Persists the user''),
                                        (''obj'', PObj (ObjFunc save_fn))])])])])]
   \<and> map_of (class_methods ''app.models'' ''User'' user_cls) ''User.save'' = None"
  by code_simp

text \<open>
  Claim C5 says that the ownership test is applied to the methods of a qualifying class, so
  that a method declared in another unit is left out. The loops over classes and over
  functions have the test, the loop over a class's function members has none: for \<open>Worker\<close>
  the inherited \<open>join\<close>, whose \<open>__module__\<close> is \<open>vendor.base\<close>, is recorded next to \<open>run\<close>.
\<close>

theorem inherited_method_recorded:
  "\<not> startswith (fn_module join_fn) (mod_name workers_mod)
   \<and> process_module workers_mod ''app.workers''
     = [(''app.workers'',
         PDict [(''obj'', PObj (ObjModule workers_mod)),
                (''app.workers.Worker'',
                 PDict [(''doc'', PNone), (''obj'', PObj (ObjClass worker_cls)),
                        (''method'',
                         PDict [(''app.workers.Worker.join'',
                                 PDict [(''doc'', PStr ''Wait for the worker.''),
                                        (''obj'', PObj (ObjFunc join_fn))]),
                                (''app.workers.Worker.run'',
                                 PDict [(''doc'', PNone),
                                        (''obj'', PObj (ObjFunc run_fn))])])])])]"
  by code_simp

text \<open>
  Claim C6 says that a unit that fails to load loses only its own subtree, also when it is a
  nested sub-package. \<open>_process_package\<close> loads a sub-package outside its \<open>try\<close>, so the
  exception ends the processing of the whole top-level package: with \<open>a.bad\<close> failing, the
  result has no entry for \<open>a\<close> and class \<open>K\<close> of the sibling \<open>a.good\<close> is nowhere in it; what is
  left is the member-less module object made from the loose file \<open>good.py\<close>. When \<open>a.bad\<close>
  loads, \<open>a\<close> is recorded with \<open>a.good\<close> and its class.
\<close>

theorem failing_subpackage_drops_package:
  "map_sum id module_dict (gen_module_dict failing_units failing_root new_agent)
     = Inr [(''good'', PDict [(''obj'', PObj (ObjModule (stub_module ''good'')))])]
   \<and> map_sum id (\<lambda>a. map (\<lambda>(k, v). (k, map (\<lambda>(m, e). (m, dict_keys e)) (modules_of v)))
                         (module_dict a))
         (gen_module_dict loading_units failing_root new_agent)
     = Inr [(''a'', [(''a.good'', [''obj'', ''a.good.K''])])]"
  by code_simp

section \<open>Index invalidation\<close>

text \<open>What the eviction deletes, in general: the names with a project key as string prefix.\<close>

lemma fold_exn_dict_del:
  "distinct names \<Longrightarrow> set names \<subseteq> fst ` set d
   \<Longrightarrow> fold_exn dict_del names d = Inr (filter (\<lambda>(n, m). n \<notin> set names) d)"
proof (induction names arbitrary: d)
  case Nil
  then show ?case by simp
next
  case (Cons k names)
  have del: "dict_del k d = Inr (AList.delete k d)" using Cons(3) by (simp add: dict_del_def)
  have sub: "set names \<subseteq> fst ` set (AList.delete k d)"
  proof
    fix x assume x: "x \<in> set names"
    then have "x \<noteq> k" using Cons(2) by auto
    moreover from x Cons(3) obtain b where "(x, b) \<in> set d" by force
    ultimately have "(x, b) \<in> set (AList.delete k d)" by (auto simp: AList.delete_eq)
    then show "x \<in> fst ` set (AList.delete k d)" by force
  qed
  have "fold_exn dict_del names (AList.delete k d)
          = Inr (filter (\<lambda>(n, m). n \<notin> set names) (AList.delete k d))"
    using Cons(1)[OF _ sub] Cons(2) by simp
  moreover have "filter (\<lambda>(n, m). n \<notin> set names) (AList.delete k d)
                   = filter (\<lambda>(n, m). n \<notin> set (k # names)) d"
    by (auto simp: AList.delete_eq intro: filter_cong)
  ultimately show ?case using del by simp
qed

lemma evict_modules_result:
  assumes "distinct (map fst sys_modules)"
  shows "evict_modules a sys_modules
           = Inr (filter (\<lambda>(name, m). \<not> list_ex (\<lambda>pm. startswith name pm) (map fst (module_dict a)))
                         sys_modules)"
proof -
  let ?P = "\<lambda>name. list_ex (\<lambda>pm. startswith name pm) (map fst (module_dict a))"
  let ?names = "filter ?P (map fst sys_modules)"
  have "fold_exn dict_del ?names sys_modules = Inr (filter (\<lambda>(n, m). n \<notin> set ?names) sys_modules)"
    by (rule fold_exn_dict_del) (use assms in auto)
  moreover have "filter (\<lambda>(n, m). n \<notin> set ?names) sys_modules
                   = filter (\<lambda>(name, m). \<not> ?P name) sys_modules"
    by (rule filter_cong) force+
  ultimately show ?thesis by (simp add: evict_modules_def modules_to_del_def)
qed

text \<open>
  Claim C7 says that only the project's own unit names and their dotted descendants leave
  the cache, and that \<open>app2\<close> stays when the project owns \<open>app\<close>. \<open>_update_module_dict\<close>
  tests \<open>name.startswith(mod)\<close> with no dot boundary: with the project key \<open>app\<close>, the
  entries \<open>app\<close>, \<open>app.models\<close> and also \<open>app2\<close> are deleted; \<open>numpy\<close> stays.
\<close>

theorem eviction_by_string_prefix:
  "evict_modules \<lparr>module_dict = [(''app'', PDict [])], module_doc_dict = []\<rparr>
     [(''app'', stub_module ''app''), (''app.models'', stub_module ''app.models''),
      (''app2'', stub_module ''app2''), (''numpy'', stub_module ''numpy'')]
   = Inr [(''numpy'', stub_module ''numpy'')]"
  by code_simp

end
